theory Spec2Isabelle
  imports Main
begin

section \<open>The singleton holder of \<^verbatim>\<open>singleton.hpp\<close>\<close>

text \<open>
  \<^verbatim>\<open>utils::singleton<T>\<close> has two implementations, chosen by the preprocessor:
  a double-checked lock around a heap pointer for compilers older than Visual C++ 2013
  (called the legacy path below), and a function-local static everywhere else (the static
  path).

  The template argument \<open>T\<close> is a value of the type variable \<open>'t\<close>: all the
  static members of \<^verbatim>\<open>singleton<T>\<close> become functions of \<open>T\<close>, so there is
  one slot for each \<open>T\<close>. The class \<open>T\<close> itself is not part of the repository; the
  holder uses its default constructor and its destructor only. The constructor is a
  parameter of every function that runs it: a state transformer that returns, throws or
  does not come back, and that may call the holder of another class. The destructor is
  such a parameter too, in the functions whose names end in \<open>_running\<close>; the functions
  without that ending are the holder's own part of the destruction, which is all of it for
  a class whose destructor does nothing to the program's state. Every destruction is
  recorded in a log.
\<close>

type_synonym addr = nat
type_synonym exn = string

text \<open>
  A call returns a value, throws, or ends in a fault: a deadlock on the mutex, or one of
  the undefined behaviours that the functions below can reach. \<open>final\<close> is the state
  after a call that comes back, by a return or by an exception.
\<close>

datatype fault = Deadlock | Null_dereference | Double_delete | Recursive_init

datatype ('a, 's) outcome = Returns 'a 's | Throws exn 's | Faults fault

type_synonym 's ctor = "'s \<Rightarrow> (unit, 's) outcome"
type_synonym 's dtor = "'s \<Rightarrow> (unit, 's) outcome"

definition final :: "('a, 's) outcome \<Rightarrow> 's option" where
  "final r = (case r of Returns a s \<Rightarrow> Some s | Throws e s \<Rightarrow> Some s | Faults f \<Rightarrow> None)"

subsection \<open>The legacy path: one thread\<close>

text \<open>
  \<open>object\<close> and \<open>mutex\<close> are \<^verbatim>\<open>object_\<close> and \<^verbatim>\<open>mutex_\<close>, the static
  members of the class template (one of each per \<open>T\<close>); \<open>None\<close> is the null
  pointer and \<open>True\<close> a locked mutex. \<open>heap\<close>
  tells which completely constructed object lives at an address, \<open>brk\<close> is the next
  address the allocator hands out, and \<open>world\<close> is the rest of the program's state.
\<close>

record ('t, 'w) legacy =
  object :: "'t \<Rightarrow> addr option"
  mutex :: "'t \<Rightarrow> bool"
  heap :: "addr \<Rightarrow> 't option"
  brk :: addr
  destroyed :: "('t \<times> addr) list"
  world :: 'w

definition legacy_start :: "'w \<Rightarrow> ('t, 'w) legacy" where
  "legacy_start w =
     \<lparr>object = (\<lambda>T. None), mutex = (\<lambda>T. False), heap = (\<lambda>p. None), brk = 0,
      destroyed = [], world = w\<rparr>"

text \<open>
  The expression \<^verbatim>\<open>new T\<close>: storage is allocated, the constructor runs in it, and the
  object exists once the constructor has returned. When the constructor throws, the
  storage is given back and the exception goes on to the caller.
\<close>

definition new_expr ::
  "'t \<Rightarrow> ('t, 'w) legacy ctor \<Rightarrow> ('t, 'w) legacy \<Rightarrow> (addr, ('t, 'w) legacy) outcome" where
  "new_expr T ctor s =
     (let p = brk s in
      case ctor (s\<lparr>brk := Suc p\<rparr>) of
        Returns u s' \<Rightarrow> Returns p (s'\<lparr>heap := (heap s')(p \<mapsto> T)\<rparr>)
      | Throws e s' \<Rightarrow> Throws e s'
      | Faults f \<Rightarrow> Faults f)"

definition lock :: "'t \<Rightarrow> ('t, 'w) legacy \<Rightarrow> ('t, 'w) legacy" where
  "lock T s = s\<lparr>mutex := (mutex s)(T := True)\<rparr>"

definition unlock :: "'t \<Rightarrow> ('t, 'w) legacy \<Rightarrow> ('t, 'w) legacy" where
  "unlock T s = s\<lparr>mutex := (mutex s)(T := False)\<rparr>"

definition do_nothing :: "'t \<Rightarrow> ('t, 'w) legacy \<Rightarrow> ('t, 'w) legacy" where
  "do_nothing T s = s"

text \<open>\<^verbatim>\<open>return *object_;\<close> Dereferencing the null pointer is a fault.\<close>

definition deref_object :: "'t \<Rightarrow> ('t, 'w) legacy \<Rightarrow> (addr, ('t, 'w) legacy) outcome" where
  "deref_object T s =
     (case object s T of None \<Rightarrow> Faults Null_dereference | Some p \<Rightarrow> Returns p s)"

text \<open>
  \<^verbatim>\<open>singleton<T>::instance()\<close>, lines 69 to 81. \<^verbatim>\<open>boost::mutex\<close> is not
  recursive: with one thread, finding it locked means that the thread itself holds it
  (the constructor of \<open>T\<close> came back to \<^verbatim>\<open>instance()\<close>), and the call never returns.
  The \<^verbatim>\<open>scoped_lock\<close> unlocks when its block is left, also by an exception.
\<close>

definition instance_legacy ::
  "'t \<Rightarrow> ('t, 'w) legacy ctor \<Rightarrow> ('t, 'w) legacy \<Rightarrow> (addr, ('t, 'w) legacy) outcome" where
  "instance_legacy T ctor s =
     (if object s T = None then
        (if mutex s T then Faults Deadlock
         else
           let s1 = lock T s in
           if object s1 T = None then
             (case new_expr T ctor s1 of
                Returns p s2 \<Rightarrow>
                  deref_object T
                    (unlock T (do_nothing T (s2\<lparr>object := (object s2)(T \<mapsto> p)\<rparr>)))
              | Throws e s2 \<Rightarrow> Throws e (unlock T s2)
              | Faults f \<Rightarrow> Faults f)
           else deref_object T (unlock T s1))
      else deref_object T s)"

text \<open>
  \<^verbatim>\<open>singleton<T>::destroy()\<close>, lines 87 to 91: \<^verbatim>\<open>delete object_; object_ = NULL;\<close>
  Deleting the null pointer does nothing; deleting an address where no \<open>T\<close> lives (a
  second delete of the same pointer) is a fault. This is the holder's own part: the
  storage, the log and the pointer. The destructor of \<open>T\<close> that the \<^verbatim>\<open>delete\<close> runs
  is added in \<open>destroy_running\<close> below.
\<close>

definition destroy :: "'t \<Rightarrow> ('t, 'w) legacy \<Rightarrow> (unit, ('t, 'w) legacy) outcome" where
  "destroy T s =
     (case object s T of
        None \<Rightarrow> Returns () (s\<lparr>object := (object s)(T := None)\<rparr>)
      | Some p \<Rightarrow>
          if heap s p = Some T then
            Returns ()
              (s\<lparr>heap := (heap s)(p := None), destroyed := destroyed s @ [(T, p)],
                 object := (object s)(T := None)\<rparr>)
          else Faults Double_delete)"

text \<open>\<^verbatim>\<open>~object_destroyer()\<close>, lines 98 to 104, for the guard of \<^verbatim>\<open>singleton<T>\<close>.\<close>

definition object_destroyer_dtor ::
  "'t \<Rightarrow> ('t, 'w) legacy \<Rightarrow> (unit, ('t, 'w) legacy) outcome" where
  "object_destroyer_dtor T s =
     (if object s T \<noteq> None then destroy T s else Returns () s)"

text \<open>
  At exit the guards \<^verbatim>\<open>destroy_object_\<close> are destroyed. They are static data members
  of a class template, so the order among them is the implementation's; it is the list
  given here.
\<close>

fun exit_legacy ::
  "'t list \<Rightarrow> ('t, 'w) legacy \<Rightarrow> (unit, ('t, 'w) legacy) outcome" where
  "exit_legacy [] s = Returns () s"
| "exit_legacy (T # Ts) s =
     (case object_destroyer_dtor T s of
        Returns u s' \<Rightarrow> exit_legacy Ts s'
      | Throws e s' \<Rightarrow> Throws e s'
      | Faults f \<Rightarrow> Faults f)"

text \<open>
  The same three functions with the destructor of \<open>T\<close> run by \<^verbatim>\<open>delete object_\<close>
  (line 89). The destructor runs first, on the object that \<^verbatim>\<open>object_\<close> still
  points to; then the storage is given back; and only then is \<^verbatim>\<open>object_\<close> reset
  (line 90). The destructor is user code: it may call \<^verbatim>\<open>instance()\<close> of another class,
  and an exception from it leaves \<^verbatim>\<open>destroy()\<close> before the pointer is reset. The exit
  routine takes the destructor of each class from the table \<open>dtors\<close>.
\<close>

definition destroy_running ::
  "'t \<Rightarrow> ('t, 'w) legacy dtor \<Rightarrow> ('t, 'w) legacy \<Rightarrow> (unit, ('t, 'w) legacy) outcome" where
  "destroy_running T dtor s =
     (case object s T of
        None \<Rightarrow> Returns () (s\<lparr>object := (object s)(T := None)\<rparr>)
      | Some p \<Rightarrow>
          if heap s p = Some T then
            (case dtor s of
               Returns u s1 \<Rightarrow>
                 Returns ()
                   (s1\<lparr>heap := (heap s1)(p := None), destroyed := destroyed s1 @ [(T, p)],
                       object := (object s1)(T := None)\<rparr>)
             | Throws e s1 \<Rightarrow> Throws e s1
             | Faults f \<Rightarrow> Faults f)
          else Faults Double_delete)"

definition object_destroyer_dtor_running ::
  "'t \<Rightarrow> ('t, 'w) legacy dtor \<Rightarrow> ('t, 'w) legacy \<Rightarrow> (unit, ('t, 'w) legacy) outcome" where
  "object_destroyer_dtor_running T dtor s =
     (if object s T \<noteq> None then destroy_running T dtor s else Returns () s)"

fun exit_legacy_running ::
  "('t \<Rightarrow> ('t, 'w) legacy dtor) \<Rightarrow> 't list \<Rightarrow> ('t, 'w) legacy \<Rightarrow>
     (unit, ('t, 'w) legacy) outcome" where
  "exit_legacy_running dtors [] s = Returns () s"
| "exit_legacy_running dtors (T # Ts) s =
     (case object_destroyer_dtor_running T (dtors T) s of
        Returns u s' \<Rightarrow> exit_legacy_running dtors Ts s'
      | Throws e s' \<Rightarrow> Throws e s'
      | Faults f \<Rightarrow> Faults f)"



text \<open>
  A constructor of \<open>A\<close> that begins with \<^verbatim>\<open>singleton<B>::instance()\<close> and goes on
  with \<open>rest\<close>; an exception or a fault of the call ends the constructor. A destructor
  that begins with such a call is the same function.
\<close>

definition ctor_accessing_legacy ::
  "'t \<Rightarrow> ('t, 'w) legacy ctor \<Rightarrow> ('t, 'w) legacy ctor \<Rightarrow> ('t, 'w) legacy ctor" where
  "ctor_accessing_legacy B ctorB rest s =
     (case instance_legacy B ctorB s of
        Returns r s1 \<Rightarrow> rest s1
      | Throws e s1 \<Rightarrow> Throws e s1
      | Faults f \<Rightarrow> Faults f)"

text \<open>
  A slot is valid when its pointer, if set, points to a live object of class \<open>T\<close>.
  \<open>slot_of\<close> is what \<^verbatim>\<open>singleton<U>\<close> owns: its pointer, its mutex, and the object
  the pointer points to. \<open>live_instances\<close> lists the instances that a list of guards
  finds alive, in the order of the guards.
\<close>

definition slot_valid :: "'t \<Rightarrow> ('t, 'w) legacy \<Rightarrow> bool" where
  "slot_valid T s = (case object s T of None \<Rightarrow> True | Some p \<Rightarrow> heap s p = Some T)"

definition slot_of :: "'t \<Rightarrow> ('t, 'w) legacy \<Rightarrow> addr option \<times> bool \<times> 't option" where
  "slot_of U s =
     (object s U, mutex s U, case object s U of None \<Rightarrow> None | Some q \<Rightarrow> heap s q)"


subsection \<open>The static path: one thread\<close>

text \<open>
  \<^verbatim>\<open>static T object; return object;\<close> (lines 169 to 173) leaves everything to the
  language. A function-local static is initialised when control first passes through its
  declaration; an exception from the constructor leaves it uninitialised, to be tried
  again at the next call; entering the declaration again while the constructor runs is
  undefined. When the constructor has returned, the destructor is registered, and at exit
  the registered destructors run, the latest registered first. Nothing resets the
  initialisation flag then, so a later call gets the destroyed object.

  \<open>slot\<close> is the state of the static of \<^verbatim>\<open>singleton<T>::instance\<close>, \<open>registered\<close>
  the destructors to run at exit (the latest first), \<open>torn_down\<close> the log of the
  destructors run (the earliest first) and \<open>globals\<close> the rest of the program's state.
  The reference returned is the static's own name, \<open>T\<close>.
\<close>

datatype slot = Not_created | Under_construction | Live | Destroyed

record ('t, 'w) statics =
  slot :: "'t \<Rightarrow> slot"
  registered :: "'t list"
  torn_down :: "'t list"
  globals :: 'w

definition statics_start :: "'w \<Rightarrow> ('t, 'w) statics" where
  "statics_start w =
     \<lparr>slot = (\<lambda>T. Not_created), registered = [], torn_down = [], globals = w\<rparr>"

definition set_slot :: "'t \<Rightarrow> slot \<Rightarrow> ('t, 'w) statics \<Rightarrow> ('t, 'w) statics" where
  "set_slot T x s = s\<lparr>slot := (slot s)(T := x)\<rparr>"

definition instance_static ::
  "'t \<Rightarrow> ('t, 'w) statics ctor \<Rightarrow> ('t, 'w) statics \<Rightarrow> ('t, ('t, 'w) statics) outcome" where
  "instance_static T ctor s =
     (case slot s T of
        Live \<Rightarrow> Returns T s
      | Destroyed \<Rightarrow> Returns T s
      | Under_construction \<Rightarrow> Faults Recursive_init
      | Not_created \<Rightarrow>
          (case ctor (set_slot T Under_construction s) of
             Returns u s' \<Rightarrow> Returns T ((set_slot T Live s')\<lparr>registered := T # registered s'\<rparr>)
           | Throws e s' \<Rightarrow> Throws e (set_slot T Not_created s')
           | Faults f \<Rightarrow> Faults f))"

fun run_destructors :: "'t list \<Rightarrow> ('t, 'w) statics \<Rightarrow> ('t, 'w) statics" where
  "run_destructors [] s = s"
| "run_destructors (T # Ts) s =
     run_destructors Ts ((set_slot T Destroyed s)\<lparr>torn_down := torn_down s @ [T]\<rparr>)"

definition exit_static :: "('t, 'w) statics \<Rightarrow> ('t, 'w) statics" where
  "exit_static s = run_destructors (registered s) (s\<lparr>registered := []\<rparr>)"

text \<open>
  The exit routine with the destructors run, taken from the table \<open>dtors\<close>. The
  destructor registered last is taken off the list and run; when it has returned the
  object is destroyed; then the routine goes on with the list as it is then, so that a
  destructor registered meanwhile runs next. A destructor that keeps registering new ones
  keeps the routine from ever returning, which is the value \<open>None\<close>. The destructors
  keep out of the holders during the exit routine when each of them, in the state in which
  it is run, returns and leaves the slots, the list and the log as they are.
\<close>

partial_function (option) exit_static_running ::
  "('t \<Rightarrow> ('t, 'w) statics dtor) \<Rightarrow> ('t, 'w) statics \<Rightarrow>
     (unit, ('t, 'w) statics) outcome option" where
  "exit_static_running dtors s =
     (case registered s of
        [] \<Rightarrow> Some (Returns () s)
      | T # Ts \<Rightarrow>
          (case dtors T (s\<lparr>registered := Ts\<rparr>) of
             Returns u s1 \<Rightarrow>
               exit_static_running dtors
                 ((set_slot T Destroyed s1)\<lparr>torn_down := torn_down s1 @ [T]\<rparr>)
           | Throws e s1 \<Rightarrow> Some (Throws e s1)
           | Faults f \<Rightarrow> Some (Faults f)))"



text \<open>
  The constructor of \<open>A\<close> that begins with a call for \<open>B\<close>, as in the legacy path.
\<close>

definition ctor_accessing_static ::
  "'t \<Rightarrow> ('t, 'w) statics ctor \<Rightarrow> ('t, 'w) statics ctor \<Rightarrow> ('t, 'w) statics ctor" where
  "ctor_accessing_static B ctorB rest s =
     (case instance_static B ctorB s of
        Returns r s1 \<Rightarrow> rest s1
      | Throws e s1 \<Rightarrow> Throws e s1
      | Faults f \<Rightarrow> Faults f)"

text \<open>
  A state is well formed when the destructors registered for exit are those of the live
  instances, each registered once.
\<close>

definition wf_static :: "('t, 'w) statics \<Rightarrow> bool" where
  "wf_static s \<longleftrightarrow>
     distinct (registered s) \<and> (\<forall>T. (T \<in> set (registered s)) = (slot s T = Live))"

subsection \<open>The legacy path: many threads\<close>

text \<open>
  Threads that call the legacy \<^verbatim>\<open>instance()\<close> of one \<^verbatim>\<open>singleton<T>\<close>, again and
  again, interleaved statement by statement. The model follows the two shared variables
  that the holder itself reads and writes, the pointer \<^verbatim>\<open>object_\<close> and the mutex:
  every read and write of them is one step, in the order of the source text. What a thread
  sees of the object behind the pointer is not part of it. A thread is at one of the places
  below. The constructor of \<open>T\<close> does not call back into the holder here; which of its
  runs throw is the parameter \<open>thr\<close> of \<open>step\<close>, and \<open>ctor_calls\<close> numbers the
  runs.
\<close>

type_synonym tid = nat

datatype pc =
    Check1
  | Lock
  | Check2
  | Alloc
  | Construct addr nat
  | Assign addr
  | Do_nothing
  | Unlock
  | Unwind exn
  | Return
  | Done addr
  | Raised exn
  | Crashed

record system =
  sh_object :: "addr option"
  sh_mutex :: "tid option"
  sh_brk :: addr
  ctor_calls :: nat
  pcs :: "tid \<Rightarrow> pc"

definition system_start :: system where
  "system_start =
     \<lparr>sh_object = None, sh_mutex = None, sh_brk = 0, ctor_calls = 0, pcs = (\<lambda>t. Check1)\<rparr>"

definition goto :: "tid \<Rightarrow> pc \<Rightarrow> system \<Rightarrow> system" where
  "goto t l c = c\<lparr>pcs := (pcs c)(t := l)\<rparr>"

text \<open>
  One step of thread \<open>t\<close>. \<open>Check1\<close> is line 71, \<open>Lock\<close> line 73 (a thread that
  finds the mutex taken stays where it is), \<open>Check2\<close> line 74; \<open>Alloc\<close>,
  \<open>Construct\<close> and \<open>Assign\<close> are the three parts of line 76 (storage, the run of
  \<open>T()\<close>, the write to \<^verbatim>\<open>object_\<close>); \<open>Do_nothing\<close> is line 77; \<open>Unlock\<close> and
  \<open>Unwind\<close> are the end of the \<^verbatim>\<open>scoped_lock\<close>, normally and by an exception;
  \<open>Return\<close> is line 80. A thread whose call is over (\<open>Done\<close>, \<open>Raised\<close>) calls
  again.
\<close>

definition step :: "(nat \<Rightarrow> exn option) \<Rightarrow> tid \<Rightarrow> system \<Rightarrow> system" where
  "step thr t c =
     (case pcs c t of
        Check1 \<Rightarrow> goto t (if sh_object c = None then Lock else Return) c
      | Lock \<Rightarrow> (if sh_mutex c = None then goto t Check2 (c\<lparr>sh_mutex := Some t\<rparr>) else c)
      | Check2 \<Rightarrow> goto t (if sh_object c = None then Alloc else Unlock) c
      | Alloc \<Rightarrow>
          goto t (Construct (sh_brk c) (ctor_calls c))
            (c\<lparr>sh_brk := Suc (sh_brk c), ctor_calls := Suc (ctor_calls c)\<rparr>)
      | Construct p k \<Rightarrow>
          (case thr k of
             None \<Rightarrow> goto t (Assign p) c
           | Some e \<Rightarrow> goto t (Unwind e) c)
      | Assign p \<Rightarrow> goto t Do_nothing (c\<lparr>sh_object := Some p\<rparr>)
      | Do_nothing \<Rightarrow> goto t Unlock c
      | Unlock \<Rightarrow> goto t Return (c\<lparr>sh_mutex := None\<rparr>)
      | Unwind e \<Rightarrow> goto t (Raised e) (c\<lparr>sh_mutex := None\<rparr>)
      | Return \<Rightarrow> goto t (case sh_object c of None \<Rightarrow> Crashed | Some p \<Rightarrow> Done p) c
      | Done p \<Rightarrow> goto t Check1 c
      | Raised e \<Rightarrow> goto t Check1 c
      | Crashed \<Rightarrow> c)"

text \<open>A schedule is the list of the threads that move, in order.\<close>

fun run :: "(nat \<Rightarrow> exn option) \<Rightarrow> tid list \<Rightarrow> system \<Rightarrow> system" where
  "run thr [] c = c"
| "run thr (t # ts) c = run thr ts (step thr t c)"

definition never_throws :: "nat \<Rightarrow> exn option" where
  "never_throws k = None"

text \<open>
  The places where a thread is inside the block guarded by the \<^verbatim>\<open>scoped_lock\<close>, and
  the places of a thread that is on the fast path or back from it with the pointer \<open>p\<close>.
\<close>

fun in_block :: "pc \<Rightarrow> bool" where
  "in_block Check2 = True"
| "in_block Alloc = True"
| "in_block (Construct p k) = True"
| "in_block (Assign p) = True"
| "in_block Do_nothing = True"
| "in_block Unlock = True"
| "in_block (Unwind e) = True"
| "in_block l = False"

fun outside :: "addr \<Rightarrow> pc \<Rightarrow> bool" where
  "outside p Check1 = True"
| "outside p Return = True"
| "outside p (Done q) = (q = p)"
| "outside p l = False"

text \<open>
  What holds at each place of a thread, whatever the other threads do: inside the block
  the thread owns the mutex; \<^verbatim>\<open>object_\<close> is still null while the constructor runs
  and until the pointer is written; it is set from line 77 on, and a finished call holds
  the pointer that \<^verbatim>\<open>object_\<close> holds. A system is consistent when this holds of every
  thread and the owner of the mutex is inside the block.
\<close>

fun local_ok :: "system \<Rightarrow> tid \<Rightarrow> pc \<Rightarrow> bool" where
  "local_ok c t Check1 = True"
| "local_ok c t Lock = True"
| "local_ok c t Check2 = (sh_mutex c = Some t)"
| "local_ok c t Alloc = (sh_mutex c = Some t \<and> sh_object c = None)"
| "local_ok c t (Construct p k) = (sh_mutex c = Some t \<and> sh_object c = None)"
| "local_ok c t (Assign p) = (sh_mutex c = Some t \<and> sh_object c = None)"
| "local_ok c t Do_nothing = (sh_mutex c = Some t \<and> sh_object c \<noteq> None)"
| "local_ok c t Unlock = (sh_mutex c = Some t \<and> sh_object c \<noteq> None)"
| "local_ok c t (Unwind e) = (sh_mutex c = Some t \<and> sh_object c = None)"
| "local_ok c t Return = (sh_object c \<noteq> None)"
| "local_ok c t (Done p) = (sh_object c = Some p)"
| "local_ok c t (Raised e) = True"
| "local_ok c t Crashed = False"

definition consistent :: "system \<Rightarrow> bool" where
  "consistent c \<longleftrightarrow>
     (\<forall>t. local_ok c t (pcs c t)) \<and>
     (\<forall>t. sh_mutex c = Some t \<longrightarrow> in_block (pcs c t))"

subsection \<open>Classes, states and schedules of the examples\<close>

text \<open>
  The two classes of the specification's scenario, and constructors: one that does
  nothing, one that throws until the program's state allows it (for either path), and the
  constructor of \<open>Logger\<close> that calls \<^verbatim>\<open>singleton<ConfigStore>::instance()\<close> in the
  static path.
\<close>

datatype cls = Logger | ConfigStore

definition plain_ctor :: "'s ctor" where
  "plain_ctor s = Returns () s"

definition flaky_ctor :: "('t, bool) legacy ctor" where
  "flaky_ctor s = (if world s then Returns () s else Throws ''not ready'' s)"

definition flaky_static_ctor :: "('t, bool) statics ctor" where
  "flaky_static_ctor s = (if globals s then Returns () s else Throws ''not ready'' s)"

definition logger_ctor :: "(cls, unit) statics ctor" where
  "logger_ctor = ctor_accessing_static ConfigStore plain_ctor plain_ctor"

text \<open>
  Destructors, for either path: one that does nothing; \<^verbatim>\<open>~Logger()\<close>, which calls
  \<^verbatim>\<open>singleton<ConfigStore>::instance()\<close>; and \<^verbatim>\<open>~ConfigStore()\<close>, which does
  nothing.
\<close>

definition plain_dtor :: "'s dtor" where
  "plain_dtor s = Returns () s"





text \<open>
  States of the legacy path: with one \<open>Logger\<close> after the first call, after the guard's
  destructor, and after one more call; with a live \<open>ConfigStore\<close> alone; and with both
  instances alive, \<open>Logger\<close> at address 0 and \<open>ConfigStore\<close> at address 1.
\<close>

definition logger_live :: "(cls, unit) legacy" where
  "logger_live =
     \<lparr>object = (\<lambda>T. None)(Logger \<mapsto> 0), mutex = (\<lambda>T. False),
      heap = (\<lambda>p. None)(0 \<mapsto> Logger), brk = 1, destroyed = [], world = ()\<rparr>"

definition logger_gone :: "(cls, unit) legacy" where
  "logger_gone =
     \<lparr>object = (\<lambda>T. None), mutex = (\<lambda>T. False), heap = (\<lambda>p. None), brk = 1,
      destroyed = [(Logger, 0)], world = ()\<rparr>"

definition logger_again :: "(cls, unit) legacy" where
  "logger_again =
     \<lparr>object = (\<lambda>T. None)(Logger \<mapsto> 1), mutex = (\<lambda>T. False),
      heap = (\<lambda>p. None)(1 \<mapsto> Logger), brk = 2, destroyed = [(Logger, 0)], world = ()\<rparr>"


definition legacy_both :: "(cls, unit) legacy" where
  "legacy_both =
     \<lparr>object = (\<lambda>T. None)(Logger \<mapsto> 0, ConfigStore \<mapsto> 1), mutex = (\<lambda>T. False),
      heap = (\<lambda>p. None)(0 \<mapsto> Logger, 1 \<mapsto> ConfigStore), brk = 2, destroyed = [],
      world = ()\<rparr>"


definition both_live :: "(cls, unit) statics" where
  "both_live =
     \<lparr>slot = (\<lambda>T. Not_created)(ConfigStore := Live, Logger := Live),
      registered = [Logger, ConfigStore], torn_down = [], globals = ()\<rparr>"

definition static_gone :: "(cls, unit) statics" where
  "static_gone =
     \<lparr>slot = (\<lambda>T. Not_created)(Logger := Destroyed), registered = [],
      torn_down = [Logger], globals = ()\<rparr>"



text \<open>
  A schedule in which thread 0 makes the first call alone, up to its return.
\<close>

definition late_schedule :: "tid list" where
  "late_schedule = [0, 0, 0, 0, 0, 0, 0, 0, 0]"

section \<open>Properties\<close>

subsection \<open>Single calls\<close>

text \<open>
  What one call does on the fast path, on the slow path when the constructor returns,
  and when the constructor throws.
\<close>

lemma fun_upd_same_const: "(\<lambda>x. c)(a := c) = (\<lambda>x. c)"
  by auto

lemma final_simps [simp]:
  "final (Returns a s) = Some s" "final (Throws e s) = Some s" "final (Faults f) = None"
  by (simp_all add: final_def)

lemma new_expr_Returns:
  "new_expr T ctor s = Returns p s2 \<Longrightarrow>
     p = brk s \<and> (\<exists>s'. ctor (s\<lparr>brk := Suc (brk s)\<rparr>) = Returns () s' \<and>
       s2 = s'\<lparr>heap := (heap s')(brk s \<mapsto> T)\<rparr>)"
  by (auto simp: new_expr_def Let_def split: outcome.splits)

lemma new_expr_Throws:
  "new_expr T ctor s = Throws e s2 \<Longrightarrow> ctor (s\<lparr>brk := Suc (brk s)\<rparr>) = Throws e s2"
  by (auto simp: new_expr_def Let_def split: outcome.splits)

lemma new_expr_Faults:
  "new_expr T ctor s = Faults f \<Longrightarrow> ctor (s\<lparr>brk := Suc (brk s)\<rparr>) = Faults f"
  by (auto simp: new_expr_def Let_def split: outcome.splits)

lemma instance_legacy_fast:
  "object s T = Some p \<Longrightarrow> instance_legacy T ctor s = Returns p s"
  by (simp add: instance_legacy_def deref_object_def)

lemma instance_legacy_first:
  assumes "object s T = None" and "\<not> mutex s T"
    and "ctor ((lock T s)\<lparr>brk := Suc (brk s)\<rparr>) = Returns () s1"
  shows "instance_legacy T ctor s =
    Returns (brk s)
      (unlock T (s1\<lparr>heap := (heap s1)(brk s \<mapsto> T), object := (object s1)(T \<mapsto> brk s)\<rparr>))"
  using assms
  by (simp add: instance_legacy_def new_expr_def deref_object_def lock_def unlock_def
      do_nothing_def Let_def)

lemma instance_legacy_throws:
  assumes "object s T = None" and "\<not> mutex s T"
    and "ctor ((lock T s)\<lparr>brk := Suc (brk s)\<rparr>) = Throws e s1"
  shows "instance_legacy T ctor s = Throws e (unlock T s1)"
  using assms
  by (simp add: instance_legacy_def new_expr_def lock_def Let_def)

lemma instance_legacy_Returns:
  assumes "instance_legacy T ctor s = Returns p s'"
  shows "object s' T = Some p"
proof (cases "object s T")
  case (Some q)
  with assms show ?thesis by (simp add: instance_legacy_fast)
next
  case None
  with assms show ?thesis
    by (auto simp: instance_legacy_def deref_object_def lock_def unlock_def do_nothing_def
        split: if_splits outcome.splits option.splits)
qed

lemma instance_legacy_heap:
  assumes "instance_legacy T ctor s = Returns p s'" and "slot_valid T s"
  shows "heap s' p = Some T"
proof (cases "object s T")
  case (Some q)
  with assms show ?thesis by (simp add: instance_legacy_fast slot_valid_def)
next
  case None
  with assms(1) show ?thesis
    by (auto simp: instance_legacy_def deref_object_def lock_def unlock_def do_nothing_def
        split: if_splits outcome.splits option.splits dest!: new_expr_Returns)
qed

lemma instance_static_first:
  assumes "slot s T = Not_created"
    and "ctor (set_slot T Under_construction s) = Returns () s1"
  shows "instance_static T ctor s =
    Returns T ((set_slot T Live s1)\<lparr>registered := T # registered s1\<rparr>)"
  using assms by (simp add: instance_static_def)

lemma instance_static_again:
  "slot s T = Live \<or> slot s T = Destroyed \<Longrightarrow> instance_static T ctor s = Returns T s"
  by (auto simp: instance_static_def)

lemma instance_static_throws:
  assumes "slot s T = Not_created"
    and "ctor (set_slot T Under_construction s) = Throws e s1"
  shows "instance_static T ctor s = Throws e (set_slot T Not_created s1)"
  using assms by (simp add: instance_static_def)

subsection \<open>Every step keeps the threads consistent\<close>

text \<open>
  The legacy path with many threads: consistency holds at the start and every step of
  every thread keeps it, so it holds in every state a schedule can reach.
\<close>

lemma consistent_start: "consistent system_start"
  by (simp add: consistent_def system_start_def)

lemma step_local_ok:
  assumes "consistent c"
  shows "local_ok (step thr t c) u (pcs (step thr t c) u)"
proof -
  from assms have lt: "local_ok c t (pcs c t)" and lu: "local_ok c u (pcs c u)"
    by (auto simp: consistent_def)
  show ?thesis
  proof (cases "u = t")
    case True
    with lt show ?thesis
      by (cases "pcs c t") (auto simp: step_def goto_def split: option.splits)
  next
    case False
    with lt lu show ?thesis
      by (cases "pcs c t"; cases "pcs c u") (auto simp: step_def goto_def split: option.splits)
  qed
qed

lemma step_owner:
  assumes "consistent c" and "sh_mutex (step thr t c) = Some u"
  shows "in_block (pcs (step thr t c) u)"
proof -
  from assms(1) have lt: "local_ok c t (pcs c t)"
    and g2: "\<And>v. sh_mutex c = Some v \<Longrightarrow> in_block (pcs c v)"
    by (auto simp: consistent_def)
  show ?thesis
  proof (cases "u = t")
    case True
    with lt assms(2) g2 [of t] show ?thesis
      by (cases "pcs c t") (auto simp: step_def goto_def split: option.splits if_splits)
  next
    case False
    with lt assms(2) g2 [of u] show ?thesis
      by (cases "pcs c t") (auto simp: step_def goto_def split: option.splits if_splits)
  qed
qed

lemma consistent_step: "consistent c \<Longrightarrow> consistent (step thr t c)"
  unfolding consistent_def [of "step thr t c"]
  using step_local_ok step_owner by blast

lemma consistent_run: "consistent c \<Longrightarrow> consistent (run thr sched c)"
  by (induction sched arbitrary: c) (simp_all add: consistent_step)

lemma run_append: "run thr (xs @ ys) c = run thr ys (run thr xs c)"
  by (induction xs arbitrary: c) simp_all

lemma consistent_reached: "consistent (run thr sched system_start)"
  by (simp add: consistent_run consistent_start)

subsection \<open>A failed construction is tried again\<close>

text \<open>
  C2. A constructor that throws leaves the slot empty, and a later call tries again.
  Legacy path: when the slot is empty, the mutex free and the run of \<open>T()\<close> throws
  \<open>e\<close> (leaving \<^verbatim>\<open>object_\<close> of \<open>T\<close> alone), the call ends with the same \<open>e\<close>,
  \<^verbatim>\<open>object_\<close> is still null and the mutex is free again; and whatever the rest of the
  program's state has become by the next call, if the constructor returns then, that
  call returns a pointer, stored in \<^verbatim>\<open>object_\<close>, to a live \<open>T\<close>. Static path: the
  same, with the slot back to not created after the exception, then live.
\<close>

theorem failed_construction_is_retried:
  "(object s T = None \<and> \<not> mutex s T \<and>
    ctor ((lock T s)\<lparr>brk := Suc (brk s)\<rparr>) = Throws e s1 \<and> object s1 T = None \<longrightarrow>
      instance_legacy T ctor s = Throws e (unlock T s1) \<and>
      object (unlock T s1) T = None \<and> \<not> mutex (unlock T s1) T \<and>
      (\<forall>w s2. ctor ((lock T ((unlock T s1)\<lparr>world := w\<rparr>))\<lparr>brk := Suc (brk s1)\<rparr>) =
            Returns () s2 \<longrightarrow>
         (\<exists>s3. instance_legacy T ctor ((unlock T s1)\<lparr>world := w\<rparr>) = Returns (brk s1) s3 \<and>
            object s3 T = Some (brk s1) \<and> heap s3 (brk s1) = Some T))) \<and>
   (slot z T = Not_created \<and> zctor (set_slot T Under_construction z) = Throws e z1 \<longrightarrow>
      instance_static T zctor z = Throws e (set_slot T Not_created z1) \<and>
      slot (set_slot T Not_created z1) T = Not_created \<and>
      (\<forall>w z2. zctor (set_slot T Under_construction ((set_slot T Not_created z1)\<lparr>globals := w\<rparr>)) =
            Returns () z2 \<longrightarrow>
         (\<exists>z3. instance_static T zctor ((set_slot T Not_created z1)\<lparr>globals := w\<rparr>) =
            Returns T z3 \<and> slot z3 T = Live)))"
proof (intro conjI impI allI)
  assume h: "object s T = None \<and> \<not> mutex s T \<and>
    ctor ((lock T s)\<lparr>brk := Suc (brk s)\<rparr>) = Throws e s1 \<and> object s1 T = None"
  then show "instance_legacy T ctor s = Throws e (unlock T s1)"
    by (simp add: instance_legacy_throws)
  from h show "object (unlock T s1) T = None" by (simp add: unlock_def)
  show "\<not> mutex (unlock T s1) T" by (simp add: unlock_def)
  fix w s2
  assume r: "ctor ((lock T ((unlock T s1)\<lparr>world := w\<rparr>))\<lparr>brk := Suc (brk s1)\<rparr>) = Returns () s2"
  let ?s = "(unlock T s1)\<lparr>world := w\<rparr>"
  have "object ?s T = None" "\<not> mutex ?s T" "brk ?s = brk s1"
    using h by (simp_all add: unlock_def)
  with r have "instance_legacy T ctor ?s =
      Returns (brk s1)
        (unlock T (s2\<lparr>heap := (heap s2)(brk s1 \<mapsto> T), object := (object s2)(T \<mapsto> brk s1)\<rparr>))"
    using instance_legacy_first [of ?s T ctor s2] by simp
  then show "\<exists>s3. instance_legacy T ctor ?s = Returns (brk s1) s3 \<and>
      object s3 T = Some (brk s1) \<and> heap s3 (brk s1) = Some T"
    by (simp add: unlock_def)
next
  assume h: "slot z T = Not_created \<and> zctor (set_slot T Under_construction z) = Throws e z1"
  then show "instance_static T zctor z = Throws e (set_slot T Not_created z1)"
    by (simp add: instance_static_throws)
  show "slot (set_slot T Not_created z1) T = Not_created" by (simp add: set_slot_def)
  fix w z2
  let ?z = "(set_slot T Not_created z1)\<lparr>globals := w\<rparr>"
  assume r: "zctor (set_slot T Under_construction ?z) = Returns () z2"
  have "slot ?z T = Not_created" by (simp add: set_slot_def)
  with r have "instance_static T zctor ?z =
      Returns T ((set_slot T Live z2)\<lparr>registered := T # registered z2\<rparr>)"
    by (simp add: instance_static_first)
  then show "\<exists>z3. instance_static T zctor ?z = Returns T z3 \<and> slot z3 T = Live"
    by (simp add: set_slot_def)
qed

theorem failed_construction_is_retried_witness:
  "(\<exists>s1. instance_legacy Logger flaky_ctor (legacy_start False) = Throws ''not ready'' s1 \<and>
      object s1 Logger = None \<and> \<not> mutex s1 Logger \<and>
      (\<exists>s3. instance_legacy Logger flaky_ctor (s1\<lparr>world := True\<rparr>) = Returns 1 s3 \<and>
         object s3 Logger = Some 1 \<and> heap s3 1 = Some Logger)) \<and>
   (\<exists>z1. instance_static Logger flaky_static_ctor (statics_start False) =
        Throws ''not ready'' z1 \<and> slot z1 Logger = Not_created \<and>
      (\<exists>z3. instance_static Logger flaky_static_ctor (z1\<lparr>globals := True\<rparr>) =
         Returns Logger z3 \<and> slot z3 Logger = Live))"
proof -
  let ?s = "legacy_start False :: (cls, bool) legacy"
  let ?s1 = "(lock Logger ?s)\<lparr>brk := 1\<rparr>"
  let ?z = "statics_start False :: (cls, bool) statics"
  let ?z1 = "set_slot Logger Under_construction ?z"
  let ?s2 = "(lock Logger ((unlock Logger ?s1)\<lparr>world := True\<rparr>))\<lparr>brk := 2\<rparr>"
  let ?z2 = "set_slot Logger Under_construction ((set_slot Logger Not_created ?z1)\<lparr>globals := True\<rparr>)"
  note inst = failed_construction_is_retried [of ?s Logger flaky_ctor "''not ready''" ?s1
      ?z flaky_static_ctor ?z1]
  have a: "object ?s Logger = None \<and> \<not> mutex ?s Logger \<and>
      flaky_ctor ((lock Logger ?s)\<lparr>brk := Suc (brk ?s)\<rparr>) = Throws ''not ready'' ?s1 \<and>
      object ?s1 Logger = None"
    by (simp add: legacy_start_def flaky_ctor_def lock_def)
  have b: "flaky_ctor ((lock Logger ((unlock Logger ?s1)\<lparr>world := True\<rparr>))\<lparr>brk := Suc (brk ?s1)\<rparr>) =
      Returns () ?s2"
    by (simp add: flaky_ctor_def lock_def unlock_def)
  have c: "slot ?z Logger = Not_created \<and>
      flaky_static_ctor (set_slot Logger Under_construction ?z) = Throws ''not ready'' ?z1"
    by (simp add: statics_start_def flaky_static_ctor_def set_slot_def)
  have d: "flaky_static_ctor ?z2 = Returns () ?z2"
    by (simp add: flaky_static_ctor_def set_slot_def)
  have e: "brk ?s1 = 1" by simp
  from inst a have l1: "instance_legacy Logger flaky_ctor ?s = Throws ''not ready'' (unlock Logger ?s1)"
    and l2: "object (unlock Logger ?s1) Logger = None" "\<not> mutex (unlock Logger ?s1) Logger"
    by blast+
  from inst a b obtain s3 where
    l3: "instance_legacy Logger flaky_ctor ((unlock Logger ?s1)\<lparr>world := True\<rparr>) =
        Returns (brk ?s1) s3 \<and> object s3 Logger = Some (brk ?s1) \<and> heap s3 (brk ?s1) = Some Logger"
    by blast
  from inst c have m1: "instance_static Logger flaky_static_ctor ?z =
      Throws ''not ready'' (set_slot Logger Not_created ?z1)"
    and m0: "slot (set_slot Logger Not_created ?z1) Logger = Not_created"
    by blast+
  from inst c d obtain z3 where m2: "instance_static Logger flaky_static_ctor
        ((set_slot Logger Not_created ?z1)\<lparr>globals := True\<rparr>) = Returns Logger z3 \<and>
      slot z3 Logger = Live"
    by blast
  have left: "\<exists>s1. instance_legacy Logger flaky_ctor (legacy_start False) = Throws ''not ready'' s1 \<and>
      object s1 Logger = None \<and> \<not> mutex s1 Logger \<and>
      (\<exists>s3. instance_legacy Logger flaky_ctor (s1\<lparr>world := True\<rparr>) = Returns 1 s3 \<and>
         object s3 Logger = Some 1 \<and> heap s3 1 = Some Logger)"
    using l1 l2 l3 e by (intro exI [of _ "unlock Logger ?s1"]) auto
  have right: "\<exists>z1. instance_static Logger flaky_static_ctor (statics_start False) =
        Throws ''not ready'' z1 \<and> slot z1 Logger = Not_created \<and>
      (\<exists>z3. instance_static Logger flaky_static_ctor (z1\<lparr>globals := True\<rparr>) =
         Returns Logger z3 \<and> slot z3 Logger = Live)"
    using m0 m1 m2 by (intro exI [of _ "set_slot Logger Not_created ?z1"]) auto
  from left right show ?thesis by blast
qed

subsection \<open>After the destruction\<close>

text \<open>
  The two paths differ after the instance has been destroyed: the static keeps its flag,
  the legacy pointer is reset.
\<close>

lemma run_destructors_Destroyed:
  "slot s T = Destroyed \<Longrightarrow> slot (run_destructors Ts s) T = Destroyed"
  by (induction Ts arbitrary: s) (simp_all add: set_slot_def)

lemma object_destroyer_dtor_Returns:
  "object_destroyer_dtor T s = Returns u s' \<Longrightarrow> object s' T = None"
  by (auto simp: object_destroyer_dtor_def destroy_def split: if_splits option.splits)

text \<open>
  C3, as stated, fails in the legacy path. One \<open>Logger\<close>: the first call creates the
  instance at address 0; the guard's destructor deletes it and leaves \<^verbatim>\<open>object_\<close>
  null; one more call of \<^verbatim>\<open>instance()\<close> creates a new instance, at address 1.
\<close>

theorem legacy_recreates_after_teardown:
  "instance_legacy Logger plain_ctor (legacy_start ()) = Returns 0 logger_live \<and>
   exit_legacy [Logger] logger_live = Returns () logger_gone \<and>
   object logger_gone Logger = None \<and> destroyed logger_gone = [(Logger, 0)] \<and>
   instance_legacy Logger plain_ctor logger_gone = Returns 1 logger_again \<and>
   object logger_again Logger = Some 1 \<and> heap logger_again 1 = Some Logger"
proof -
  have a: "instance_legacy Logger plain_ctor (legacy_start ()) = Returns 0 logger_live"
    by (simp add: instance_legacy_def new_expr_def deref_object_def lock_def unlock_def
        do_nothing_def plain_ctor_def legacy_start_def logger_live_def fun_upd_same_const)
  have b: "exit_legacy [Logger] logger_live = Returns () logger_gone"
    by (simp add: object_destroyer_dtor_def destroy_def logger_live_def logger_gone_def
        fun_upd_same_const)
  have c: "instance_legacy Logger plain_ctor logger_gone = Returns 1 logger_again"
    by (simp add: instance_legacy_def new_expr_def deref_object_def lock_def unlock_def
        do_nothing_def plain_ctor_def logger_gone_def logger_again_def fun_upd_same_const)
  from a b c show ?thesis by (simp add: logger_gone_def logger_again_def)
qed

text \<open>
  C3, as amended. Static path: once the slot of \<open>T\<close> is destroyed it stays destroyed:
  a call of \<^verbatim>\<open>instance()\<close> returns the destroyed object and changes nothing, whatever
  the constructor (which does not run), and the exit routine leaves the slot destroyed.
  Legacy path: there is no destroyed state; the guard's destructor leaves \<^verbatim>\<open>object_\<close>
  null, as before the first call, and a call of \<^verbatim>\<open>instance()\<close> after it whose
  constructor returns creates a new instance and stores it in \<^verbatim>\<open>object_\<close>.
\<close>

theorem destroyed_slot_stays_or_resets:
  "(slot z T = Destroyed \<longrightarrow>
      instance_static T zctor z = Returns T z \<and> slot (exit_static z) T = Destroyed) \<and>
   (\<forall>s'. object_destroyer_dtor T s = Returns () s' \<longrightarrow>
      object s' T = None \<and>
      (\<not> mutex s' T \<and> ctor ((lock T s')\<lparr>brk := Suc (brk s')\<rparr>) = Returns () s2 \<longrightarrow>
         (\<exists>s3. instance_legacy T ctor s' = Returns (brk s') s3 \<and>
            object s3 T = Some (brk s') \<and> heap s3 (brk s') = Some T)))"
proof (intro conjI impI allI)
  assume d: "slot z T = Destroyed"
  then show "instance_static T zctor z = Returns T z" by (simp add: instance_static_again)
  from d show "slot (exit_static z) T = Destroyed"
    by (simp add: exit_static_def run_destructors_Destroyed)
next
  fix s'
  assume r: "object_destroyer_dtor T s = Returns () s'"
  then show o: "object s' T = None" by (rule object_destroyer_dtor_Returns)
  assume "\<not> mutex s' T \<and> ctor ((lock T s')\<lparr>brk := Suc (brk s')\<rparr>) = Returns () s2"
  with o have "instance_legacy T ctor s' =
      Returns (brk s')
        (unlock T (s2\<lparr>heap := (heap s2)(brk s' \<mapsto> T), object := (object s2)(T \<mapsto> brk s')\<rparr>))"
    by (simp add: instance_legacy_first)
  then show "\<exists>s3. instance_legacy T ctor s' = Returns (brk s') s3 \<and>
      object s3 T = Some (brk s') \<and> heap s3 (brk s') = Some T"
    by (simp add: unlock_def)
qed

theorem destroyed_slot_stays_or_resets_witness:
  "slot static_gone Logger = Destroyed \<and>
   instance_static Logger plain_ctor static_gone = Returns Logger static_gone \<and>
   slot (exit_static static_gone) Logger = Destroyed \<and>
   object_destroyer_dtor Logger logger_live = Returns () logger_gone \<and>
   object logger_gone Logger = None \<and>
   (\<exists>s3. instance_legacy Logger plain_ctor logger_gone = Returns 1 s3 \<and>
      object s3 Logger = Some 1 \<and> heap s3 1 = Some Logger)"
proof -
  have a: "slot static_gone Logger = Destroyed"
    by (simp add: static_gone_def)
  have b: "object_destroyer_dtor Logger logger_live = Returns () logger_gone"
    by (simp add: object_destroyer_dtor_def destroy_def logger_live_def logger_gone_def
        fun_upd_same_const)
  have c: "\<not> mutex logger_gone Logger \<and>
      plain_ctor ((lock Logger logger_gone)\<lparr>brk := Suc (brk logger_gone)\<rparr>) =
        Returns () ((lock Logger logger_gone)\<lparr>brk := Suc (brk logger_gone)\<rparr>)"
    by (simp add: plain_ctor_def logger_gone_def)
  have d: "brk logger_gone = 1" by (simp add: logger_gone_def)
  note inst = destroyed_slot_stays_or_resets [of static_gone Logger plain_ctor logger_live
      plain_ctor "(lock Logger logger_gone)\<lparr>brk := Suc (brk logger_gone)\<rparr>"]
  from inst a have e: "instance_static Logger plain_ctor static_gone = Returns Logger static_gone \<and>
      slot (exit_static static_gone) Logger = Destroyed"
    by blast
  from inst b have f: "object logger_gone Logger = None" by blast
  from inst b c obtain s3 where "instance_legacy Logger plain_ctor logger_gone =
      Returns (brk logger_gone) s3 \<and> object s3 Logger = Some (brk logger_gone) \<and>
      heap s3 (brk logger_gone) = Some Logger"
    by blast
  with a b d e f show ?thesis by auto
qed

subsection \<open>The order of construction and of destruction\<close>

text \<open>
  The exit routine of the static path destroys in the order of the registrations, the
  latest first; the legacy exit routine destroys in the order of the guards.
\<close>

lemma torn_down_run_destructors:
  "torn_down (run_destructors Ts s) = torn_down s @ Ts"
  by (induction Ts arbitrary: s) (simp_all add: set_slot_def)

lemma torn_down_exit_static: "torn_down (exit_static s) = torn_down s @ registered s"
  by (simp add: exit_static_def torn_down_run_destructors)

lemma logger_first_call:
  "instance_static Logger logger_ctor (statics_start ()) = Returns Logger both_live"
  by (simp add: instance_static_def logger_ctor_def ctor_accessing_static_def plain_ctor_def
      statics_start_def set_slot_def both_live_def fun_upd_twist)

text \<open>
  C4, as stated, fails in the static path. The constructor of \<open>Logger\<close> makes the first
  access to \<open>ConfigStore\<close>; at exit \<open>Logger\<close> is destroyed first and
  \<open>ConfigStore\<close>, the dependency, last, not before \<open>Logger\<close>.
\<close>

theorem dependency_destroyed_last:
  "instance_static Logger logger_ctor (statics_start ()) = Returns Logger both_live \<and>
   torn_down (exit_static both_live) = [Logger, ConfigStore]"
  by (simp add: logger_first_call torn_down_exit_static) (simp add: both_live_def)

lemma exit_legacy_two:
  assumes "A \<noteq> B" and "object s A = Some pa" and "object s B = Some pb"
    and "heap s pa = Some A" and "heap s pb = Some B"
  shows "\<exists>s'. exit_legacy [A, B] s = Returns () s' \<and>
    destroyed s' = destroyed s @ [(A, pa), (B, pb)]"
proof -
  from assms have "pa \<noteq> pb" by auto
  with assms show ?thesis
    by (simp add: object_destroyer_dtor_def destroy_def)
qed

text \<open>
  C4, as amended. When the constructor of \<open>A\<close> makes the first access to \<open>B\<close>, the
  instance of \<open>B\<close> is complete before the rest of that constructor runs, in both paths.
  In the static path the destructors run in the reverse order of the completed
  constructions: \<open>A\<close>, completed last, is destroyed before \<open>B\<close>. In the legacy path
  the instances are destroyed in the order in which the guards are destroyed, whatever
  the order of the constructions: either of the two orders of the guards destroys the two
  instances in that order.
\<close>

theorem dependent_destroyed_first:
  "(A \<noteq> B \<and> slot z A = Not_created \<and> slot z B = Not_created \<and>
    zctorB (set_slot B Under_construction (set_slot A Under_construction z)) = Returns () zb \<and>
    zrest ((set_slot B Live zb)\<lparr>registered := B # registered zb\<rparr>) = Returns () zr \<and>
    B \<in> set (registered zr) \<longrightarrow>
      ctor_accessing_static B zctorB zrest (set_slot A Under_construction z) =
        zrest ((set_slot B Live zb)\<lparr>registered := B # registered zb\<rparr>) \<and>
      slot ((set_slot B Live zb)\<lparr>registered := B # registered zb\<rparr>) B = Live \<and>
      instance_static A (ctor_accessing_static B zctorB zrest) z =
        Returns A ((set_slot A Live zr)\<lparr>registered := A # registered zr\<rparr>) \<and>
      (\<exists>xs ys. torn_down (exit_static ((set_slot A Live zr)\<lparr>registered := A # registered zr\<rparr>)) =
         torn_down zr @ A # xs @ B # ys)) \<and>
   (A \<noteq> B \<and> object s A = None \<and> \<not> mutex s A \<and> object s B = None \<and> \<not> mutex s B \<and>
    ctorB ((lock B ((lock A s)\<lparr>brk := Suc (brk s)\<rparr>))\<lparr>brk := Suc (Suc (brk s))\<rparr>) =
      Returns () sb \<and>
    rest (unlock B (sb\<lparr>heap := (heap sb)(Suc (brk s) \<mapsto> B),
                        object := (object sb)(B \<mapsto> Suc (brk s))\<rparr>)) = Returns () sr \<longrightarrow>
      ctor_accessing_legacy B ctorB rest ((lock A s)\<lparr>brk := Suc (brk s)\<rparr>) =
        rest (unlock B (sb\<lparr>heap := (heap sb)(Suc (brk s) \<mapsto> B),
                            object := (object sb)(B \<mapsto> Suc (brk s))\<rparr>)) \<and>
      heap (unlock B (sb\<lparr>heap := (heap sb)(Suc (brk s) \<mapsto> B),
                         object := (object sb)(B \<mapsto> Suc (brk s))\<rparr>)) (Suc (brk s)) = Some B \<and>
      instance_legacy A (ctor_accessing_legacy B ctorB rest) s =
        Returns (brk s)
          (unlock A (sr\<lparr>heap := (heap sr)(brk s \<mapsto> A), object := (object sr)(A \<mapsto> brk s)\<rparr>))) \<and>
   (A \<noteq> B \<and> object x A = Some pa \<and> object x B = Some pb \<and>
    heap x pa = Some A \<and> heap x pb = Some B \<longrightarrow>
      (\<exists>x'. exit_legacy [A, B] x = Returns () x' \<and>
         destroyed x' = destroyed x @ [(A, pa), (B, pb)]) \<and>
      (\<exists>x'. exit_legacy [B, A] x = Returns () x' \<and>
         destroyed x' = destroyed x @ [(B, pb), (A, pa)]))"
proof (intro conjI impI)
  assume h: "A \<noteq> B \<and> slot z A = Not_created \<and> slot z B = Not_created \<and>
    zctorB (set_slot B Under_construction (set_slot A Under_construction z)) = Returns () zb \<and>
    zrest ((set_slot B Live zb)\<lparr>registered := B # registered zb\<rparr>) = Returns () zr \<and>
    B \<in> set (registered zr)"
  let ?zb = "(set_slot B Live zb)\<lparr>registered := B # registered zb\<rparr>"
  let ?zf = "(set_slot A Live zr)\<lparr>registered := A # registered zr\<rparr>"
  from h have "B \<noteq> A" by auto
  with h have "slot (set_slot A Under_construction z) B = Not_created"
    by (simp add: set_slot_def)
  with h have b: "instance_static B zctorB (set_slot A Under_construction z) = Returns B ?zb"
    by (simp add: instance_static_first)
  then show c: "ctor_accessing_static B zctorB zrest (set_slot A Under_construction z) = zrest ?zb"
    by (simp add: ctor_accessing_static_def)
  show "slot ?zb B = Live" by (simp add: set_slot_def)
  from h c show "instance_static A (ctor_accessing_static B zctorB zrest) z = Returns A ?zf"
    by (simp add: instance_static_first)
  from h obtain xs ys where "registered zr = xs @ B # ys"
    by (auto dest: split_list)
  then have "torn_down (exit_static ?zf) = torn_down zr @ A # xs @ B # ys"
    by (simp add: torn_down_exit_static set_slot_def)
  then show "\<exists>xs ys. torn_down (exit_static ?zf) = torn_down zr @ A # xs @ B # ys"
    by blast
next
  assume h: "A \<noteq> B \<and> object s A = None \<and> \<not> mutex s A \<and> object s B = None \<and> \<not> mutex s B \<and>
    ctorB ((lock B ((lock A s)\<lparr>brk := Suc (brk s)\<rparr>))\<lparr>brk := Suc (Suc (brk s))\<rparr>) =
      Returns () sb \<and>
    rest (unlock B (sb\<lparr>heap := (heap sb)(Suc (brk s) \<mapsto> B),
                        object := (object sb)(B \<mapsto> Suc (brk s))\<rparr>)) = Returns () sr"
  let ?s0 = "(lock A s)\<lparr>brk := Suc (brk s)\<rparr>"
  let ?sb = "unlock B (sb\<lparr>heap := (heap sb)(Suc (brk s) \<mapsto> B),
                          object := (object sb)(B \<mapsto> Suc (brk s))\<rparr>)"
  from h have "B \<noteq> A" by auto
  with h have "object ?s0 B = None" "\<not> mutex ?s0 B" "brk ?s0 = Suc (brk s)"
    by (simp_all add: lock_def)
  with h have b: "instance_legacy B ctorB ?s0 = Returns (Suc (brk s)) ?sb"
    using instance_legacy_first [of ?s0 B ctorB sb] by simp
  then show c: "ctor_accessing_legacy B ctorB rest ?s0 = rest ?sb"
    by (simp add: ctor_accessing_legacy_def)
  show "heap ?sb (Suc (brk s)) = Some B" by (simp add: unlock_def)
  from h c show "instance_legacy A (ctor_accessing_legacy B ctorB rest) s =
      Returns (brk s)
        (unlock A (sr\<lparr>heap := (heap sr)(brk s \<mapsto> A), object := (object sr)(A \<mapsto> brk s)\<rparr>))"
    by (simp add: instance_legacy_first)
next
  assume h: "A \<noteq> B \<and> object x A = Some pa \<and> object x B = Some pb \<and>
    heap x pa = Some A \<and> heap x pb = Some B"
  then show "\<exists>x'. exit_legacy [A, B] x = Returns () x' \<and>
      destroyed x' = destroyed x @ [(A, pa), (B, pb)]"
    by (intro exit_legacy_two) simp_all
  from h show "\<exists>x'. exit_legacy [B, A] x = Returns () x' \<and>
      destroyed x' = destroyed x @ [(B, pb), (A, pa)]"
    by (intro exit_legacy_two) auto
qed

theorem dependent_destroyed_first_witness:
  "instance_static Logger (ctor_accessing_static ConfigStore plain_ctor plain_ctor)
      (statics_start ()) = Returns Logger both_live \<and>
   (\<exists>xs ys. torn_down (exit_static both_live) = Logger # xs @ ConfigStore # ys) \<and>
   (\<exists>s'. instance_legacy Logger (ctor_accessing_legacy ConfigStore plain_ctor plain_ctor)
      (legacy_start ()) = Returns 0 (s' :: (cls, unit) legacy)) \<and>
   (\<exists>x'. exit_legacy [Logger, ConfigStore] legacy_both = Returns () x' \<and>
      destroyed x' = [(Logger, 0), (ConfigStore, 1)]) \<and>
   (\<exists>x'. exit_legacy [ConfigStore, Logger] legacy_both = Returns () x' \<and>
      destroyed x' = [(ConfigStore, 1), (Logger, 0)])"
proof -
  let ?z = "statics_start () :: (cls, unit) statics"
  let ?zb = "set_slot ConfigStore Under_construction (set_slot Logger Under_construction ?z)"
  let ?zr = "(set_slot ConfigStore Live ?zb)\<lparr>registered := ConfigStore # registered ?zb\<rparr>"
  let ?s = "legacy_start () :: (cls, unit) legacy"
  let ?sb = "(lock ConfigStore ((lock Logger ?s)\<lparr>brk := Suc (brk ?s)\<rparr>))\<lparr>brk := Suc (Suc (brk ?s))\<rparr>"
  let ?sr = "unlock ConfigStore (?sb\<lparr>heap := (heap ?sb)(Suc (brk ?s) \<mapsto> ConfigStore),
      object := (object ?sb)(ConfigStore \<mapsto> Suc (brk ?s))\<rparr>)"
  note inst = dependent_destroyed_first [of Logger ConfigStore ?z plain_ctor ?zb plain_ctor ?zr
      ?s plain_ctor ?sb plain_ctor ?sr legacy_both 0 1]
  have a: "Logger \<noteq> ConfigStore \<and> slot ?z Logger = Not_created \<and>
      slot ?z ConfigStore = Not_created \<and>
      plain_ctor (set_slot ConfigStore Under_construction (set_slot Logger Under_construction ?z)) =
        Returns () ?zb \<and>
      plain_ctor ((set_slot ConfigStore Live ?zb)\<lparr>registered := ConfigStore # registered ?zb\<rparr>) =
        Returns () ?zr \<and>
      ConfigStore \<in> set (registered ?zr)"
    by (simp add: plain_ctor_def statics_start_def set_slot_def)
  have b: "Logger \<noteq> ConfigStore \<and> object ?s Logger = None \<and> \<not> mutex ?s Logger \<and>
      object ?s ConfigStore = None \<and> \<not> mutex ?s ConfigStore \<and>
      plain_ctor ((lock ConfigStore ((lock Logger ?s)\<lparr>brk := Suc (brk ?s)\<rparr>))
          \<lparr>brk := Suc (Suc (brk ?s))\<rparr>) = Returns () ?sb \<and>
      plain_ctor (unlock ConfigStore (?sb\<lparr>heap := (heap ?sb)(Suc (brk ?s) \<mapsto> ConfigStore),
          object := (object ?sb)(ConfigStore \<mapsto> Suc (brk ?s))\<rparr>)) = Returns () ?sr"
    by (simp add: plain_ctor_def legacy_start_def)
  have c: "Logger \<noteq> ConfigStore \<and> object legacy_both Logger = Some 0 \<and>
      object legacy_both ConfigStore = Some 1 \<and> heap legacy_both 0 = Some Logger \<and>
      heap legacy_both 1 = Some ConfigStore"
    by (simp add: legacy_both_def)
  have d: "destroyed legacy_both = []" "brk ?s = 0"
    by (simp_all add: legacy_both_def legacy_start_def)
  have e: "(set_slot Logger Live ?zr)\<lparr>registered := Logger # registered ?zr\<rparr> = both_live"
    by (simp add: both_live_def statics_start_def set_slot_def fun_upd_twist)
  have f: "torn_down ?zr = []" by (simp add: statics_start_def set_slot_def)
  from inst a e f have 1: "instance_static Logger
      (ctor_accessing_static ConfigStore plain_ctor plain_ctor) ?z = Returns Logger both_live"
    and 2: "\<exists>xs ys. torn_down (exit_static both_live) = Logger # xs @ ConfigStore # ys"
    by auto
  from inst b d have 3: "\<exists>s'. instance_legacy Logger
      (ctor_accessing_legacy ConfigStore plain_ctor plain_ctor) ?s = Returns 0 s'"
    by auto
  from inst c d have 4: "\<exists>x'. exit_legacy [Logger, ConfigStore] legacy_both = Returns () x' \<and>
      destroyed x' = [(Logger, 0), (ConfigStore, 1)]"
    and 5: "\<exists>x'. exit_legacy [ConfigStore, Logger] legacy_both = Returns () x' \<and>
      destroyed x' = [(ConfigStore, 1), (Logger, 0)]"
    by auto
  from 1 2 3 4 5 show ?thesis by blast
qed

subsection \<open>Every instance is destroyed once\<close>

text \<open>
  Valid slots stay valid: the start state has them, a call of \<^verbatim>\<open>instance()\<close> keeps
  the slot of its class valid, and a slot that a call leaves alone stays as valid as it
  was. The exit routines are followed guard by guard and destructor by destructor.
\<close>

lemma slot_valid_start: "slot_valid T (legacy_start w)"
  by (simp add: slot_valid_def legacy_start_def)

lemma slot_valid_instance:
  "slot_valid T s \<Longrightarrow> instance_legacy T ctor s = Returns p s' \<Longrightarrow> slot_valid T s'"
  by (simp add: slot_valid_def instance_legacy_Returns instance_legacy_heap)

lemma slot_valid_slot_of: "slot_of U s' = slot_of U s \<Longrightarrow> slot_valid U s' = slot_valid U s"
  by (auto simp: slot_valid_def slot_of_def split: option.splits)







lemma wf_static_start: "wf_static (statics_start w)"
  by (simp add: wf_static_def statics_start_def)

lemma wf_static_begin:
  "wf_static s \<Longrightarrow> slot s T = Not_created \<Longrightarrow> wf_static (set_slot T Under_construction s)"
  by (auto simp: wf_static_def set_slot_def)

lemma wf_static_complete:
  "wf_static s1 \<Longrightarrow> slot s1 T = Under_construction \<Longrightarrow>
     wf_static ((set_slot T Live s1)\<lparr>registered := T # registered s1\<rparr>)"
  by (auto simp: wf_static_def set_slot_def)



lemma wf_static_instance:
  assumes "wf_static s" and "instance_static T ctor s = Returns r s'"
    and "\<forall>s1. ctor (set_slot T Under_construction s) = Returns () s1 \<longrightarrow>
           wf_static s1 \<and> slot s1 T = Under_construction"
  shows "wf_static s'"
proof (cases "slot s T")
  case Not_created
  with assms(2) obtain s1 where c: "ctor (set_slot T Under_construction s) = Returns () s1"
    and s': "s' = (set_slot T Live s1)\<lparr>registered := T # registered s1\<rparr>"
    by (auto simp: instance_static_def split: outcome.splits)
  from c assms(3) have "wf_static s1 \<and> slot s1 T = Under_construction" by blast
  with s' show ?thesis by (simp add: wf_static_complete)
next
  case Under_construction
  with assms(2) show ?thesis by (simp add: instance_static_def)
next
  case Live
  with assms(1,2) show ?thesis by (simp add: instance_static_def)
next
  case Destroyed
  with assms(1,2) show ?thesis by (simp add: instance_static_def)
qed

text \<open>
  With the destructors run: a destructor that does nothing gives \<open>destroy\<close>,
  \<open>object_destroyer_dtor\<close>, \<open>exit_legacy\<close> and \<open>exit_static\<close>, and destructors
  that keep out of the holders give exit routines with the same effect on the pointers,
  the objects, the slots and the logs.
\<close>

lemma destroy_running_plain: "destroy_running T plain_dtor s = destroy T s"
  by (simp add: destroy_running_def destroy_def plain_dtor_def split: option.splits)

lemma object_destroyer_dtor_running_plain:
  "object_destroyer_dtor_running T plain_dtor s = object_destroyer_dtor T s"
  by (simp add: object_destroyer_dtor_running_def object_destroyer_dtor_def
      destroy_running_plain)

lemma exit_legacy_running_plain:
  "exit_legacy_running (\<lambda>U. plain_dtor) Ts s = exit_legacy Ts s"
  by (induction Ts arbitrary: s)
    (simp_all add: object_destroyer_dtor_running_plain split: outcome.splits)

lemma exit_static_running_idle:
  assumes "\<And>U z. dtors U z = Returns () z"
  shows "registered s = Ts \<Longrightarrow>
     exit_static_running dtors s =
       Some (Returns () (run_destructors Ts (s\<lparr>registered := []\<rparr>)))"
proof (induction Ts arbitrary: s)
  case Nil
  then show ?case by (subst exit_static_running.simps) simp
next
  case (Cons T Ts)
  let ?s2 = "(set_slot T Destroyed (s\<lparr>registered := Ts\<rparr>))\<lparr>torn_down := torn_down s @ [T]\<rparr>"
  have r: "registered ?s2 = Ts" by (simp add: set_slot_def)
  have "exit_static_running dtors s = exit_static_running dtors ?s2"
    using Cons.prems by (subst exit_static_running.simps) (simp add: assms)
  also have "\<dots> = Some (Returns () (run_destructors Ts (?s2\<lparr>registered := []\<rparr>)))"
    using r by (rule Cons.IH)
  also have "?s2\<lparr>registered := []\<rparr> =
      (set_slot T Destroyed (s\<lparr>registered := []\<rparr>))\<lparr>torn_down := torn_down (s\<lparr>registered := []\<rparr>) @ [T]\<rparr>"
    by (simp add: set_slot_def)
  finally show ?case by simp
qed

lemma exit_static_running_plain:
  "exit_static_running (\<lambda>U. plain_dtor) s = Some (Returns () (exit_static s))"
  unfolding exit_static_def
  by (rule exit_static_running_idle) (simp_all add: plain_dtor_def)











subsection \<open>Later calls take the fast path\<close>

text \<open>
  Once \<^verbatim>\<open>object_\<close> is set it stays set, and a thread on the fast path stays on it.
\<close>

lemma step_outside:
  assumes "consistent c" and "sh_object c = Some p" and "outside p (pcs c t)"
  shows "sh_object (step thr u c) = Some p \<and> outside p (pcs (step thr u c) t)"
proof (cases "u = t")
  case True
  with assms(2,3) show ?thesis
    by (cases "pcs c t") (auto simp: step_def goto_def)
next
  case False
  from assms(1) have "local_ok c u (pcs c u)" by (simp add: consistent_def)
  with False assms(2,3) show ?thesis
    by (cases "pcs c u") (auto simp: step_def goto_def split: option.splits)
qed

lemma run_outside:
  "consistent c \<Longrightarrow> sh_object c = Some p \<Longrightarrow> outside p (pcs c t) \<Longrightarrow>
     sh_object (run thr sched c) = Some p \<and> outside p (pcs (run thr sched c) t)"
proof (induction sched arbitrary: c)
  case Nil
  then show ?case by simp
next
  case (Cons u us)
  from Cons.prems have "consistent (step thr u c)"
    and "sh_object (step thr u c) = Some p \<and> outside p (pcs (step thr u c) t)"
    by (simp_all add: consistent_step step_outside)
  then show ?case using Cons.IH by simp
qed

text \<open>
  C6. Once the instance is there, a call takes the fast path. With one thread: a call
  that finds the pointer set returns that pointer and leaves the whole state, the mutex
  included, as it was. With many threads: when a thread begins a call in a state, reached
  from the start, where \<^verbatim>\<open>object_\<close> is set, then whatever runs afterwards, in that call
  and in all its later calls the thread is at line 71, at line 80 or back from the call
  with that same pointer; it is never at the lock nor inside the block, it never owns the
  mutex, and \<^verbatim>\<open>object_\<close> never changes.
\<close>

theorem later_calls_take_no_lock:
  "(object s T = Some p \<longrightarrow> instance_legacy T ctor s = Returns p s) \<and>
   (sh_object (run thr before system_start) = Some q \<and>
    pcs (run thr before system_start) t = Check1 \<longrightarrow>
      (pcs (run thr (before @ after) system_start) t = Check1 \<or>
       pcs (run thr (before @ after) system_start) t = Return \<or>
       pcs (run thr (before @ after) system_start) t = Done q) \<and>
      pcs (run thr (before @ after) system_start) t \<noteq> Lock \<and>
      \<not> in_block (pcs (run thr (before @ after) system_start) t) \<and>
      sh_mutex (run thr (before @ after) system_start) \<noteq> Some t \<and>
      sh_object (run thr (before @ after) system_start) = Some q)"
proof (intro conjI impI)
  assume "object s T = Some p"
  then show "instance_legacy T ctor s = Returns p s" by (rule instance_legacy_fast)
next
  let ?c = "run thr before system_start"
  let ?d = "run thr (before @ after) system_start"
  assume h: "sh_object ?c = Some q \<and> pcs ?c t = Check1"
  have c: "consistent ?c" by (rule consistent_reached)
  have d: "consistent ?d" by (rule consistent_reached)
  from h have "outside q (pcs ?c t)" by simp
  with c h have "sh_object (run thr after ?c) = Some q \<and> outside q (pcs (run thr after ?c) t)"
    by (intro run_outside) simp_all
  then have r: "sh_object ?d = Some q \<and> outside q (pcs ?d t)"
    by (simp add: run_append)
  then show "sh_object ?d = Some q" by simp
  from r show "pcs ?d t = Check1 \<or> pcs ?d t = Return \<or> pcs ?d t = Done q"
    by (cases "pcs ?d t") auto
  from r show "pcs ?d t \<noteq> Lock" by auto
  from r show nb: "\<not> in_block (pcs ?d t)" by (cases "pcs ?d t") auto
  from d nb show "sh_mutex ?d \<noteq> Some t" by (auto simp: consistent_def)
qed

theorem later_calls_take_no_lock_witness:
  "sh_object (run never_throws late_schedule system_start) = Some 0 \<and>
   pcs (run never_throws late_schedule system_start) 1 = Check1 \<and>
   pcs (run never_throws (late_schedule @ [1, 1]) system_start) 1 = Done 0 \<and>
   sh_mutex (run never_throws (late_schedule @ [1, 1]) system_start) \<noteq> Some 1 \<and>
   sh_object (run never_throws (late_schedule @ [1, 1]) system_start) = Some 0 \<and>
   (\<exists>s. instance_legacy Logger plain_ctor (legacy_start ()) = Returns 0 s \<and>
      object s Logger = Some 0 \<and> instance_legacy Logger plain_ctor s = Returns 0 s)"
proof -
  have a: "sh_object (run never_throws late_schedule system_start) = Some 0 \<and>
      pcs (run never_throws late_schedule system_start) 1 = Check1"
    by (simp add: late_schedule_def step_def goto_def system_start_def never_throws_def)
  have b: "pcs (run never_throws (late_schedule @ [1, 1]) system_start) 1 = Done 0"
    by (simp add: late_schedule_def step_def goto_def system_start_def never_throws_def)
  let ?s = "unlock Logger ((lock Logger (legacy_start ()))
      \<lparr>brk := 1, heap := (\<lambda>p. None)(0 \<mapsto> Logger), object := (\<lambda>T. None)(Logger \<mapsto> 0)\<rparr>)
      :: (cls, unit) legacy"
  have e: "instance_legacy Logger plain_ctor (legacy_start ()) = Returns 0 ?s"
    by (simp add: instance_legacy_def new_expr_def deref_object_def lock_def unlock_def
        do_nothing_def plain_ctor_def legacy_start_def)
  have o: "object ?s Logger = Some 0" by (simp add: unlock_def)
  note inst = later_calls_take_no_lock [of ?s Logger 0 plain_ctor never_throws late_schedule
      0 1 "[1, 1]"]
  from inst o have f: "instance_legacy Logger plain_ctor ?s = Returns 0 ?s" by blast
  from inst a have "sh_mutex (run never_throws (late_schedule @ [1, 1]) system_start) \<noteq> Some 1 \<and>
      sh_object (run never_throws (late_schedule @ [1, 1]) system_start) = Some 0"
    by blast
  with a b e o f show ?thesis by blast
qed

subsection \<open>The slots of different classes\<close>

text \<open>
  The holder's own steps for \<open>T\<close> (lock, unlock, the new object, the pointer) leave the
  slot of another class as it was.
\<close>

lemma slot_of_lock: "U \<noteq> T \<Longrightarrow> slot_of U (lock T s) = slot_of U s"
  by (simp add: slot_of_def lock_def split: option.splits)


lemma slot_of_brk: "slot_of U (s\<lparr>brk := b\<rparr>) = slot_of U s"
  by (simp add: slot_of_def split: option.splits)







subsection \<open>The pointer returned is never null\<close>

text \<open>
  C10. A call of the legacy \<^verbatim>\<open>instance()\<close> that returns leaves \<^verbatim>\<open>object_\<close> set to
  the pointer it returns, and a \<open>T\<close> lives there when the slot was valid at the call.
  The null pointer is never dereferenced at line 80: the only way to that fault is the
  constructor of \<open>T\<close> ending in it. With many threads, from the start: no thread ever
  dereferences a null pointer, and whenever a thread is at line 80, \<^verbatim>\<open>object_\<close> is set.
\<close>

theorem instance_legacy_never_null:
  "(\<forall>p s'. instance_legacy T ctor s = Returns p s' \<longrightarrow>
      object s' T = Some p \<and> (slot_valid T s \<longrightarrow> heap s' p = Some T)) \<and>
   (instance_legacy T ctor s = Faults Null_dereference \<longrightarrow>
      ctor ((lock T s)\<lparr>brk := Suc (brk s)\<rparr>) = Faults Null_dereference) \<and>
   (\<forall>t. pcs (run thr sched system_start) t \<noteq> Crashed) \<and>
   (\<forall>t. pcs (run thr sched system_start) t = Return \<longrightarrow>
      sh_object (run thr sched system_start) \<noteq> None)"
proof (intro conjI allI impI)
  fix p s'
  assume r: "instance_legacy T ctor s = Returns p s'"
  then show "object s' T = Some p" by (rule instance_legacy_Returns)
  assume "slot_valid T s"
  with r show "heap s' p = Some T" by (rule instance_legacy_heap)
next
  assume "instance_legacy T ctor s = Faults Null_dereference"
  then show "ctor ((lock T s)\<lparr>brk := Suc (brk s)\<rparr>) = Faults Null_dereference"
    by (auto simp: instance_legacy_def deref_object_def lock_def unlock_def do_nothing_def
        split: if_splits outcome.splits option.splits dest!: new_expr_Faults)
next
  fix t
  have "local_ok (run thr sched system_start) t (pcs (run thr sched system_start) t)"
    using consistent_reached [of thr sched] by (simp add: consistent_def)
  then show "pcs (run thr sched system_start) t \<noteq> Crashed" by auto
next
  fix t
  assume "pcs (run thr sched system_start) t = Return"
  moreover have "local_ok (run thr sched system_start) t (pcs (run thr sched system_start) t)"
    using consistent_reached [of thr sched] by (simp add: consistent_def)
  ultimately show "sh_object (run thr sched system_start) \<noteq> None" by simp
qed

theorem instance_legacy_never_null_witness:
  "(\<exists>s'. instance_legacy ConfigStore plain_ctor (legacy_start ()) = Returns 0 s' \<and>
      object s' ConfigStore = Some 0 \<and> heap s' 0 = Some ConfigStore) \<and>
   pcs (run never_throws [0, 0, 0, 0, 0, 0, 0, 0] system_start) 0 = Return \<and>
   sh_object (run never_throws [0, 0, 0, 0, 0, 0, 0, 0] system_start) = Some 0"
proof -
  let ?s = "unlock ConfigStore ((lock ConfigStore (legacy_start ()))
      \<lparr>brk := 1, heap := (\<lambda>p. None)(0 \<mapsto> ConfigStore),
        object := (\<lambda>T. None)(ConfigStore \<mapsto> 0)\<rparr>) :: (cls, unit) legacy"
  have e: "instance_legacy ConfigStore plain_ctor (legacy_start ()) = Returns 0 ?s"
    by (simp add: instance_legacy_def new_expr_def deref_object_def lock_def unlock_def
        do_nothing_def plain_ctor_def legacy_start_def)
  have v: "slot_valid ConfigStore (legacy_start () :: (cls, unit) legacy)"
    by (simp add: slot_valid_def legacy_start_def)
  have r: "pcs (run never_throws [0, 0, 0, 0, 0, 0, 0, 0] system_start) 0 = Return"
    by (simp add: step_def goto_def system_start_def never_throws_def)
  note inst = instance_legacy_never_null [of ConfigStore plain_ctor
      "legacy_start () :: (cls, unit) legacy" never_throws "[0, 0, 0, 0, 0, 0, 0, 0]"]
  from inst e v have "object ?s ConfigStore = Some 0 \<and> heap ?s 0 = Some ConfigStore"
    by blast
  moreover from inst r
  obtain p where "sh_object (run never_throws [0, 0, 0, 0, 0, 0, 0, 0] system_start) = Some p"
    by blast
  moreover have "sh_object (run never_throws [0, 0, 0, 0, 0, 0, 0, 0] system_start) = Some 0"
    by (simp add: step_def goto_def system_start_def never_throws_def)
  ultimately show ?thesis using e r by blast
qed

end
